theory Spec2Isabelle
  imports Main
begin

section \<open>Data model\<close>

text \<open>
  The upload panel (component \<open>ImageUpload\<close>) and the session gate (component \<open>Index\<close>)
  of the application. Field names follow the source; a field whose name is taken by
  another record or by a HOL constant carries the record as prefix
  (\<open>image_id\<close> is \<open>UploadedImage.id\<close>, \<open>file_name\<close> is \<open>File.name\<close>,
  \<open>file_type\<close> is \<open>File.type\<close>).
\<close>

record js_error =
  message :: string

record File =
  file_name :: string
  file_type :: string

record UploadedImage =
  image_id :: string
  image_url :: string
  image_name :: string

text \<open>The argument object of a \<open>toast\<close> call; \<open>variant\<close> is absent in the success toasts.\<close>

record toast_msg =
  title :: string
  description :: string
  variant :: "string option"

text \<open>The calls made on \<open>supabase.storage.from(bucket)\<close>, in the order they are issued.\<close>

datatype storage_call =
    Upload string string File
  | GetPublicUrl string string
  | Remove string "string list"

text \<open>
  What an awaited provider call delivers: the promise resolves with an object whose
  \<open>error\<close> field is null or an error, or the promise is rejected.
\<close>

datatype response =
    Response "js_error option"
  | Rejection js_error

text \<open>
  The three \<open>useState\<close> cells of \<open>ImageUpload\<close>, together with the effects the component
  has on its surroundings: the notifications shown, the console trace and the storage calls.
\<close>

record panel =
  isDragging :: bool
  uploading :: bool
  uploadedImages :: "UploadedImage list"
  toasts :: "toast_msg list"
  console :: "(string \<times> js_error) list"
  storage_calls :: "storage_call list"

definition initial_panel :: panel where
  "initial_panel =
     \<lparr>isDragging = False, uploading = False, uploadedImages = [],
      toasts = [], console = [], storage_calls = []\<rparr>"

section \<open>Primitive effects\<close>

definition setIsDragging :: "bool \<Rightarrow> panel \<Rightarrow> panel" where
  "setIsDragging b st = st\<lparr>isDragging := b\<rparr>"

definition setUploading :: "bool \<Rightarrow> panel \<Rightarrow> panel" where
  "setUploading b st = st\<lparr>uploading := b\<rparr>"

text \<open>The functional form of the setter: the update is applied to the list as it is then.\<close>

definition setUploadedImages ::
  "(UploadedImage list \<Rightarrow> UploadedImage list) \<Rightarrow> panel \<Rightarrow> panel" where
  "setUploadedImages f st = st\<lparr>uploadedImages := f (uploadedImages st)\<rparr>"

definition toast :: "toast_msg \<Rightarrow> panel \<Rightarrow> panel" where
  "toast t st = st\<lparr>toasts := toasts st @ [t]\<rparr>"

definition console_error :: "string \<Rightarrow> js_error \<Rightarrow> panel \<Rightarrow> panel" where
  "console_error label e st = st\<lparr>console := console st @ [(label, e)]\<rparr>"

definition issue :: "storage_call \<Rightarrow> panel \<Rightarrow> panel" where
  "issue c st = st\<lparr>storage_calls := storage_calls st @ [c]\<rparr>"

subsection \<open>Exceptions\<close>

text \<open>
  A block of statements either completes (\<open>Inr\<close>, with the state it leaves) or throws
  (\<open>Inl\<close>, with the error and the state at the throw).
\<close>

type_synonym 's outcome = "(js_error \<times> 's) + 's"

definition try_catch :: "'s outcome \<Rightarrow> (js_error \<Rightarrow> 's \<Rightarrow> 's outcome) \<Rightarrow> 's outcome" where
  "try_catch body handler =
     (case body of Inl (e, s) \<Rightarrow> handler e s | Inr s \<Rightarrow> Inr s)"

definition try_finally :: "'s outcome \<Rightarrow> ('s \<Rightarrow> 's) \<Rightarrow> 's outcome" where
  "try_finally body cleanup =
     (case body of Inl (e, s) \<Rightarrow> Inl (e, cleanup s) | Inr s \<Rightarrow> Inr (cleanup s))"

text \<open>\<open>const { error } = await call; if (error) throw error;\<close>\<close>

definition await_or_throw :: "response \<Rightarrow> 's \<Rightarrow> 's outcome" where
  "await_or_throw res s =
     (case res of
        Rejection e \<Rightarrow> Inl (e, s)
      | Response (Some error) \<Rightarrow> Inl (error, s)
      | Response None \<Rightarrow> Inr s)"

subsection \<open>Strings\<close>

definition startsWith :: "string \<Rightarrow> string \<Rightarrow> bool" where
  "startsWith s p = (take (length p) s = p)"

text \<open>
  A string is a list of characters; nothing below depends on more than concatenation and
  comparison of strings.

  The template literal renders \<open>Date.now()\<close>, an integer number of milliseconds, in decimal,
  with a leading minus sign for a clock set before the epoch. (The magnitude of a time value
  stays far below the size at which a number is rendered with an exponent.)
\<close>

definition digit :: "nat \<Rightarrow> char" where
  "digit d = ''0123456789'' ! d"

fun decimal :: "nat \<Rightarrow> string" where
  "decimal n = (if n < 10 then [digit n] else decimal (n div 10) @ [digit (n mod 10)])"

declare decimal.simps [simp del]

definition numberToString :: "int \<Rightarrow> string" where
  "numberToString i = (if i < 0 then CHR ''-'' # decimal (nat (- i)) else decimal (nat i))"

section \<open>The upload panel\<close>

subsection \<open>uploadImage\<close>

definition invalid_type_toast :: toast_msg where
  "invalid_type_toast =
     \<lparr>title = ''Invalid file type'', description = ''Please upload an image file'',
      variant = Some ''destructive''\<rparr>"

definition upload_success_toast :: toast_msg where
  "upload_success_toast =
     \<lparr>title = ''Upload successful!'', description = ''Your image has been uploaded'',
      variant = None\<rparr>"

definition upload_failed_toast :: toast_msg where
  "upload_failed_toast =
     \<lparr>title = ''Upload failed'', description = ''There was an error uploading your image'',
      variant = Some ''destructive''\<rparr>"

text \<open>
  The function up to its \<open>await\<close>: either it has returned (\<open>Inl\<close>), or the upload call is
  issued under the key \<open>fileName\<close> and the function is suspended (\<open>Inr\<close>). The argument
  \<open>now\<close> is the value \<open>Date.now()\<close> returns in this call.
\<close>

definition uploadImage_start :: "File \<Rightarrow> int \<Rightarrow> panel \<Rightarrow> panel + (string \<times> panel)" where
  "uploadImage_start file now st =
     (if \<not> startsWith (file_type file) ''image/'' then Inl (toast invalid_type_toast st)
      else
        let st1 = setUploading True st;
            fileName = numberToString now @ ''-'' @ file_name file
        in Inr (fileName, issue (Upload ''images'' fileName file) st1))"

text \<open>
  The function from its \<open>await\<close> on, given what the upload call delivered. The parameter
  \<open>getPublicUrl\<close> is the provider's resolver (bucket, key) of public addresses.
\<close>

definition uploadImage_resume ::
  "(string \<Rightarrow> string \<Rightarrow> string) \<Rightarrow> string \<Rightarrow> File \<Rightarrow> response \<Rightarrow> panel \<Rightarrow> panel outcome" where
  "uploadImage_resume getPublicUrl fileName file res st =
     try_finally
       (try_catch
          (case await_or_throw res st of
             Inl thrown \<Rightarrow> Inl thrown
           | Inr st1 \<Rightarrow>
               let st2 = issue (GetPublicUrl ''images'' fileName) st1;
                   publicUrl = getPublicUrl ''images'' fileName;
                   newImage = \<lparr>image_id = fileName, image_url = publicUrl,
                               image_name = file_name file\<rparr>;
                   st3 = setUploadedImages (\<lambda>prev. newImage # prev) st2
               in Inr (toast upload_success_toast st3))
          (\<lambda>error s. Inr (toast upload_failed_toast (console_error ''Upload error:'' error s))))
       (setUploading False)"

text \<open>One whole call, the upload call delivering \<open>res\<close>.\<close>

definition uploadImage ::
  "(string \<Rightarrow> string \<Rightarrow> string) \<Rightarrow> File \<Rightarrow> int \<Rightarrow> response \<Rightarrow> panel \<Rightarrow> panel outcome" where
  "uploadImage getPublicUrl file now res st =
     (case uploadImage_start file now st of
        Inl st' \<Rightarrow> Inr st'
      | Inr (fileName, st') \<Rightarrow> uploadImage_resume getPublicUrl fileName file res st')"

subsection \<open>removeImage\<close>

definition image_deleted_toast :: toast_msg where
  "image_deleted_toast =
     \<lparr>title = ''Image deleted'', description = ''Image has been removed'', variant = None\<rparr>"

definition delete_failed_toast :: toast_msg where
  "delete_failed_toast =
     \<lparr>title = ''Delete failed'', description = ''There was an error deleting the image'',
      variant = Some ''destructive''\<rparr>"

definition removeImage_start :: "string \<Rightarrow> panel \<Rightarrow> panel" where
  "removeImage_start imageId st = issue (Remove ''images'' [imageId]) st"

definition removeImage_resume :: "string \<Rightarrow> response \<Rightarrow> panel \<Rightarrow> panel outcome" where
  "removeImage_resume imageId res st =
     try_catch
       (case await_or_throw res st of
          Inl thrown \<Rightarrow> Inl thrown
        | Inr st1 \<Rightarrow>
            let st2 = setUploadedImages (filter (\<lambda>img. image_id img \<noteq> imageId)) st1
            in Inr (toast image_deleted_toast st2))
       (\<lambda>error s. Inr (toast delete_failed_toast (console_error ''Delete error:'' error s)))"

definition removeImage :: "string \<Rightarrow> response \<Rightarrow> panel \<Rightarrow> panel outcome" where
  "removeImage imageId res st = removeImage_resume imageId res (removeImage_start imageId st)"

subsection \<open>Calls in flight; drag and drop, file picker\<close>

text \<open>
  Between the call of an asynchronous function and the settling of the storage call it
  awaits, other handlers run. A system state is the component together with the storage
  calls that are outstanding, oldest first; each one stands for a suspended
  \<open>uploadImage\<close> or \<open>removeImage\<close>.
\<close>

datatype task =
    UploadTask string File
  | RemoveTask string

record system =
  component :: panel
  inflight :: "task list"

definition initial_system :: system where
  "initial_system = \<lparr>component = initial_panel, inflight = []\<rparr>"

definition call_uploadImage :: "File \<Rightarrow> int \<Rightarrow> system \<Rightarrow> system" where
  "call_uploadImage file now s =
     (case uploadImage_start file now (component s) of
        Inl st \<Rightarrow> s\<lparr>component := st\<rparr>
      | Inr (fileName, st) \<Rightarrow>
          s\<lparr>component := st, inflight := inflight s @ [UploadTask fileName file]\<rparr>)"

definition call_removeImage :: "string \<Rightarrow> system \<Rightarrow> system" where
  "call_removeImage imageId s =
     s\<lparr>component := removeImage_start imageId (component s),
       inflight := inflight s @ [RemoveTask imageId]\<rparr>"

text \<open>
  \<open>files.forEach(uploadImage)\<close>: every file is paired with the value \<open>Date.now()\<close> returns
  in its call. No call is awaited, so all of them are started before any settles.
\<close>

fun forEach_uploadImage :: "(File \<times> int) list \<Rightarrow> system \<Rightarrow> system" where
  "forEach_uploadImage [] s = s"
| "forEach_uploadImage ((file, now) # files) s =
     forEach_uploadImage files (call_uploadImage file now s)"

definition handleDrop :: "(File \<times> int) list \<Rightarrow> system \<Rightarrow> system" where
  "handleDrop files s =
     forEach_uploadImage files (s\<lparr>component := setIsDragging False (component s)\<rparr>)"

definition handleDragOver :: "system \<Rightarrow> system" where
  "handleDragOver s = s\<lparr>component := setIsDragging True (component s)\<rparr>"

definition handleDragLeave :: "system \<Rightarrow> system" where
  "handleDragLeave s = s\<lparr>component := setIsDragging False (component s)\<rparr>"

definition handleFileInput :: "(File \<times> int) list \<Rightarrow> system \<Rightarrow> system" where
  "handleFileInput files s = forEach_uploadImage files s"

subsection \<open>The event loop\<close>

text \<open>An error no handler catches ends the function; the state stays as it was then.\<close>

definition state_after :: "'s outcome \<Rightarrow> 's" where
  "state_after r = (case r of Inl (e, s) \<Rightarrow> s | Inr s \<Rightarrow> s)"

text \<open>
  The outstanding call at position \<open>k\<close> settles with \<open>res\<close> and the function awaiting it
  runs to its end. There is nothing to settle at a position beyond the outstanding calls.
\<close>

definition settle :: "(string \<Rightarrow> string \<Rightarrow> string) \<Rightarrow> nat \<Rightarrow> response \<Rightarrow> system \<Rightarrow> system" where
  "settle getPublicUrl k res s =
     (if k < length (inflight s) then
        s\<lparr>component :=
            state_after
              (case inflight s ! k of
                 UploadTask fileName file \<Rightarrow>
                   uploadImage_resume getPublicUrl fileName file res (component s)
               | RemoveTask imageId \<Rightarrow> removeImage_resume imageId res (component s)),
          inflight := take k (inflight s) @ drop (Suc k) (inflight s)\<rparr>
      else s)"

text \<open>
  What can happen next: a call of \<open>uploadImage\<close> (with the value \<open>Date.now()\<close> returns in
  it) or of \<open>removeImage\<close>, one of the handlers of the drop zone and the file input, or the
  settling of an outstanding storage call.
\<close>

datatype event =
    UploadCalled File int
  | RemoveCalled string
  | Dropped "(File \<times> int) list"
  | FilesChosen "(File \<times> int) list"
  | DragOver
  | DragLeave
  | Settled nat response

fun step :: "(string \<Rightarrow> string \<Rightarrow> string) \<Rightarrow> event \<Rightarrow> system \<Rightarrow> system" where
  "step getPublicUrl (UploadCalled file now) s = call_uploadImage file now s"
| "step getPublicUrl (RemoveCalled imageId) s = call_removeImage imageId s"
| "step getPublicUrl (Dropped files) s = handleDrop files s"
| "step getPublicUrl (FilesChosen files) s = handleFileInput files s"
| "step getPublicUrl DragOver s = handleDragOver s"
| "step getPublicUrl DragLeave s = handleDragLeave s"
| "step getPublicUrl (Settled k res) s = settle getPublicUrl k res s"

fun run :: "(string \<Rightarrow> string \<Rightarrow> string) \<Rightarrow> event list \<Rightarrow> system \<Rightarrow> system" where
  "run getPublicUrl [] s = s"
| "run getPublicUrl (ev # evs) s = run getPublicUrl evs (step getPublicUrl ev s)"

subsection \<open>Observations on a run\<close>

text \<open>The storage calls a run settles, each with what it delivered, in the order they settle.\<close>

fun settled_by :: "event \<Rightarrow> system \<Rightarrow> (task \<times> response) list" where
  "settled_by (Settled k res) s = (if k < length (inflight s) then [(inflight s ! k, res)] else [])"
| "settled_by ev s = []"

fun settled_calls ::
  "(string \<Rightarrow> string \<Rightarrow> string) \<Rightarrow> event list \<Rightarrow> system \<Rightarrow> (task \<times> response) list" where
  "settled_calls getPublicUrl [] s = []"
| "settled_calls getPublicUrl (ev # evs) s =
     settled_by ev s @ settled_calls getPublicUrl evs (step getPublicUrl ev s)"

text \<open>
  The gallery the data model asks for, read off the settled calls alone: the entry of
  every upload that succeeded, unless a delete of its key succeeded later on, the most
  recent upload first.
\<close>

definition deleted_in :: "string \<Rightarrow> (task \<times> response) list \<Rightarrow> bool" where
  "deleted_in key h = ((RemoveTask key, Response None) \<in> set h)"

fun expected_gallery ::
  "(string \<Rightarrow> string \<Rightarrow> string) \<Rightarrow> (task \<times> response) list \<Rightarrow> UploadedImage list" where
  "expected_gallery getPublicUrl [] = []"
| "expected_gallery getPublicUrl ((UploadTask key file, Response None) # h) =
     expected_gallery getPublicUrl h @
       (if deleted_in key h then []
        else [\<lparr>image_id = key, image_url = getPublicUrl ''images'' key,
               image_name = file_name file\<rparr>])"
| "expected_gallery getPublicUrl (c # h) = expected_gallery getPublicUrl h"

text \<open>The uploads that are outstanding: started, and their storage call not yet settled.\<close>

fun is_upload :: "task \<Rightarrow> bool" where
  "is_upload (UploadTask fileName file) = True"
| "is_upload (RemoveTask imageId) = False"

definition outstanding_uploads :: "system \<Rightarrow> task list" where
  "outstanding_uploads s = filter is_upload (inflight s)"

text \<open>A run in which no two uploads are ever outstanding at the same time.\<close>

fun one_at_a_time :: "(string \<Rightarrow> string \<Rightarrow> string) \<Rightarrow> event list \<Rightarrow> system \<Rightarrow> bool" where
  "one_at_a_time getPublicUrl [] s = (length (outstanding_uploads s) \<le> 1)"
| "one_at_a_time getPublicUrl (ev # evs) s =
     (length (outstanding_uploads s) \<le> 1 \<and>
      one_at_a_time getPublicUrl evs (step getPublicUrl ev s))"

text \<open>
  What holds of a gallery entry by construction: its address is the public address of its
  key in the bucket, and its key is a timestamp, a hyphen and its name.
\<close>

definition key_of :: "string \<Rightarrow> string \<Rightarrow> bool" where
  "key_of name key = (\<exists>now. key = numberToString now @ ''-'' @ name)"

definition entry_ok :: "(string \<Rightarrow> string \<Rightarrow> string) \<Rightarrow> UploadedImage \<Rightarrow> bool" where
  "entry_ok getPublicUrl img =
     (image_url img = getPublicUrl ''images'' (image_id img) \<and>
      key_of (image_name img) (image_id img))"

fun task_ok :: "task \<Rightarrow> bool" where
  "task_ok (UploadTask fileName file) = key_of (file_name file) fileName"
| "task_ok (RemoveTask imageId) = True"

text \<open>A resolver of public addresses to evaluate examples with.\<close>

definition example_getPublicUrl :: "string \<Rightarrow> string \<Rightarrow> string" where
  "example_getPublicUrl bucket key =
     ''https://project.supabase.co/storage/v1/object/public/'' @ bucket @ ''/'' @ key"

section \<open>The session gate\<close>

text \<open>
  The state of \<open>Index\<close>: the user taken from the session (null when there is none), the
  loading flag, and the notifications shown.
\<close>

record 'u gate =
  user :: "'u option"
  loading :: bool
  gate_toasts :: "toast_msg list"

definition gate_toast :: "toast_msg \<Rightarrow> 'u gate \<Rightarrow> 'u gate" where
  "gate_toast t st = st\<lparr>gate_toasts := gate_toasts st @ [t]\<rparr>"

text \<open>\<open>handleSignOut\<close>, the sign-out call delivering \<open>res\<close>; the call is not inside a \<open>try\<close>.\<close>

definition handleSignOut :: "response \<Rightarrow> 'u gate \<Rightarrow> 'u gate outcome" where
  "handleSignOut res st =
     (case res of
        Rejection e \<Rightarrow> Inl (e, st)
      | Response (Some error) \<Rightarrow>
          Inr (gate_toast \<lparr>title = ''Error signing out'', description = message error,
                           variant = Some ''destructive''\<rparr> st)
      | Response None \<Rightarrow>
          Inr (gate_toast \<lparr>title = ''Signed out successfully'',
                           description = ''You've been logged out.'', variant = None\<rparr> st))"

text \<open>What \<open>Index\<close> renders: the loading screen, nothing, or the page with the upload panel.\<close>

datatype rendering = LoadingScreen | Nothing | PageWithUploadPanel

definition render :: "'u gate \<Rightarrow> rendering" where
  "render st =
     (if loading st then LoadingScreen
      else if user st = None then Nothing
      else PageWithUploadPanel)"

section \<open>Properties of single calls\<close>

lemmas effect_defs = setIsDragging_def setUploading_def setUploadedImages_def toast_def
  console_error_def issue_def

lemmas control_defs = try_catch_def try_finally_def await_or_throw_def state_after_def

text \<open>Evaluation of the decimal rendering on numerals.\<close>

lemma decimal_numeral:
  "decimal (numeral k) =
     (if (numeral k :: nat) < 10 then [digit (numeral k)]
      else decimal (numeral k div 10) @ [digit (numeral k mod 10)])"
  by (rule decimal.simps)

lemma decimal_small: "n < 10 \<Longrightarrow> decimal n = [digit n]"
  by (simp add: decimal.simps)

lemmas render_number = numberToString_def decimal_numeral decimal_small digit_def

text \<open>
  Claim C1. A file whose MIME type does not start with \<open>image/\<close> makes \<open>uploadImage\<close> return
  normally with nothing changed but one more notification, the invalid-file-type one: no
  storage call is issued, the gallery list and the uploading flag are as before.
\<close>

theorem uploadImage_rejects_non_image:
  "\<not> startsWith (file_type file) ''image/'' \<Longrightarrow>
     uploadImage getPublicUrl file now res st =
       Inr (st\<lparr>toasts := toasts st @ [invalid_type_toast]\<rparr>)"
  by (simp add: uploadImage_def uploadImage_start_def toast_def)

theorem uploadImage_rejects_non_image_witness:
  "\<not> startsWith ''application/pdf'' ''image/'' \<and>
   uploadImage example_getPublicUrl
     \<lparr>file_name = ''notes.pdf'', file_type = ''application/pdf''\<rparr> 1700000000000
     (Response None) initial_panel =
   Inr \<lparr>isDragging = False, uploading = False, uploadedImages = [],
        toasts = [invalid_type_toast], console = [], storage_calls = []\<rparr>"
  using uploadImage_rejects_non_image
    [of "\<lparr>file_name = ''notes.pdf'', file_type = ''application/pdf''\<rparr>"
        example_getPublicUrl 1700000000000 "Response None" initial_panel]
  by (simp add: startsWith_def initial_panel_def)

text \<open>
  Claim C2. When the file is an image and the upload call succeeds, \<open>uploadImage\<close> returns
  normally and the gallery list is the old list with exactly one entry put in front; the
  id of that entry is the timestamp of the call, a hyphen and the file's name, its url the
  public address of that key and its name the file's name.
\<close>

theorem uploadImage_success_prepends:
  "startsWith (file_type file) ''image/'' \<Longrightarrow>
     \<exists>st'. uploadImage getPublicUrl file now (Response None) st = Inr st' \<and>
       uploadedImages st' =
         \<lparr>image_id = numberToString now @ ''-'' @ file_name file,
          image_url = getPublicUrl ''images'' (numberToString now @ ''-'' @ file_name file),
          image_name = file_name file\<rparr> # uploadedImages st"
  by (simp add: uploadImage_def uploadImage_start_def uploadImage_resume_def effect_defs
      control_defs Let_def)

theorem uploadImage_success_prepends_witness:
  "startsWith ''image/png'' ''image/'' \<and>
   (\<exists>st'. uploadImage example_getPublicUrl
       \<lparr>file_name = ''cat.png'', file_type = ''image/png''\<rparr> 1700000000000
       (Response None) initial_panel = Inr st' \<and>
     uploadedImages st' =
       [\<lparr>image_id = ''1700000000000-cat.png'',
         image_url = example_getPublicUrl ''images'' ''1700000000000-cat.png'',
         image_name = ''cat.png''\<rparr>])"
  using uploadImage_success_prepends
    [of "\<lparr>file_name = ''cat.png'', file_type = ''image/png''\<rparr>"
        example_getPublicUrl 1700000000000 initial_panel]
  by (simp add: startsWith_def initial_panel_def render_number)

text \<open>
  Claim C3. When the delete call succeeds, \<open>removeImage\<close> returns normally, the gallery
  list holds no entry with the given id any more, and the entries with another id are the
  same as before, in the same order.
\<close>

theorem removeImage_success_removes:
  "\<exists>st'. removeImage imageId (Response None) st = Inr st' \<and>
     filter (\<lambda>img. image_id img = imageId) (uploadedImages st') = [] \<and>
     filter (\<lambda>img. image_id img \<noteq> imageId) (uploadedImages st') =
       filter (\<lambda>img. image_id img \<noteq> imageId) (uploadedImages st)"
  by (simp add: removeImage_def removeImage_start_def removeImage_resume_def effect_defs
      control_defs Let_def)

text \<open>
  Claim C4. After a \<open>removeImage\<close> whose delete call succeeded, a second \<open>removeImage\<close> on
  the same id returns normally and leaves the gallery list as it is, whatever the storage
  provider answers (success, an error such as not-found, or a rejected promise).
\<close>

theorem removeImage_again_keeps_gallery:
  "\<exists>st1. removeImage imageId (Response None) st = Inr st1 \<and>
     (\<forall>res. \<exists>st2. removeImage imageId res st1 = Inr st2 \<and>
        uploadedImages st2 = uploadedImages st1)"
proof -
  have "\<exists>st2. removeImage imageId res
          (state_after (removeImage imageId (Response None) st)) = Inr st2 \<and>
        uploadedImages st2 =
          uploadedImages (state_after (removeImage imageId (Response None) st))" for res
    by (cases res rule: response.exhaust)
       (auto simp add: removeImage_def removeImage_start_def removeImage_resume_def
          effect_defs control_defs Let_def split: option.splits)
  moreover have "removeImage imageId (Response None) st =
      Inr (state_after (removeImage imageId (Response None) st))"
    by (simp add: removeImage_def removeImage_start_def removeImage_resume_def effect_defs
        control_defs Let_def)
  ultimately show ?thesis by blast
qed

text \<open>
  Claim C5. When the delete call fails, by an error in the response or by a rejected
  promise, \<open>removeImage\<close> returns normally, shows the delete-failed notification, and the
  gallery list is the one before the call.
\<close>

theorem removeImage_failure_keeps_gallery:
  "(\<exists>st'. removeImage imageId (Response (Some error)) st = Inr st' \<and>
      toasts st' = toasts st @ [delete_failed_toast] \<and>
      uploadedImages st' = uploadedImages st) \<and>
   (\<exists>st'. removeImage imageId (Rejection error) st = Inr st' \<and>
      toasts st' = toasts st @ [delete_failed_toast] \<and>
      uploadedImages st' = uploadedImages st)"
  by (simp add: removeImage_def removeImage_start_def removeImage_resume_def effect_defs
      control_defs Let_def)

text \<open>
  Claim C9. When the sign-out call answers with an error, \<open>handleSignOut\<close> shows a
  notification whose description is exactly the provider's message and changes neither
  the user nor what is rendered, so the upload panel stays visible; when the call succeeds
  it shows the confirmation notification.
\<close>

theorem handleSignOut_notifies:
  "(\<exists>st'. handleSignOut (Response (Some error)) st = Inr st' \<and>
      gate_toasts st' = gate_toasts st @
        [\<lparr>title = ''Error signing out'', description = message error,
          variant = Some ''destructive''\<rparr>] \<and>
      user st' = user st \<and> render st' = render st) \<and>
   (\<exists>st'. handleSignOut (Response None) st = Inr st' \<and>
      gate_toasts st' = gate_toasts st @
        [\<lparr>title = ''Signed out successfully'', description = ''You've been logged out.'',
          variant = None\<rparr>])"
  by (simp add: handleSignOut_def gate_toast_def render_def)

section \<open>Properties of runs\<close>

lemma gallery_after_upload:
  "uploadedImages (state_after (uploadImage_resume g key file res st)) =
     (if res = Response None
      then [\<lparr>image_id = key, image_url = g ''images'' key, image_name = file_name file\<rparr>]
      else []) @ uploadedImages st"
  by (auto simp add: uploadImage_resume_def effect_defs control_defs Let_def
      split: response.splits option.splits)

lemma uploading_after_upload:
  "uploading (state_after (uploadImage_resume g key file res st)) = False"
  by (auto simp add: uploadImage_resume_def effect_defs control_defs Let_def
      split: response.splits option.splits)

lemma gallery_after_remove:
  "uploadedImages (state_after (removeImage_resume imageId res st)) =
     (if res = Response None then filter (\<lambda>img. image_id img \<noteq> imageId) (uploadedImages st)
      else uploadedImages st)"
  by (auto simp add: removeImage_resume_def effect_defs control_defs Let_def
      split: response.splits option.splits)

lemma uploading_after_remove:
  "uploading (state_after (removeImage_resume imageId res st)) = uploading st"
  by (auto simp add: removeImage_resume_def effect_defs control_defs Let_def
      split: response.splits option.splits)

lemma gallery_call_uploadImage:
  "uploadedImages (component (call_uploadImage file now s)) = uploadedImages (component s)"
  by (simp add: call_uploadImage_def uploadImage_start_def effect_defs Let_def)

lemma gallery_forEach:
  "uploadedImages (component (forEach_uploadImage files s)) = uploadedImages (component s)"
  by (induction files s rule: forEach_uploadImage.induct) (simp_all add: gallery_call_uploadImage)

lemma gallery_unsettled:
  "settled_by ev s = [] \<Longrightarrow>
     uploadedImages (component (step g ev s)) = uploadedImages (component s)"
  by (cases ev)
    (simp_all add: gallery_call_uploadImage gallery_forEach call_removeImage_def
      removeImage_start_def handleDrop_def handleFileInput_def handleDragOver_def
      handleDragLeave_def effect_defs settle_def split: if_splits)

lemma gallery_settled:
  "settled_by ev s = [(t, res)] \<Longrightarrow>
     uploadedImages (component (step g ev s)) =
       (case t of
          UploadTask key file \<Rightarrow>
            (if res = Response None
             then [\<lparr>image_id = key, image_url = g ''images'' key, image_name = file_name file\<rparr>]
             else []) @ uploadedImages (component s)
        | RemoveTask imageId \<Rightarrow>
            (if res = Response None
             then filter (\<lambda>img. image_id img \<noteq> imageId) (uploadedImages (component s))
             else uploadedImages (component s)))"
  by (cases ev)
    (auto simp add: settle_def gallery_after_upload gallery_after_remove
      split: if_splits task.splits)

lemma settled_by_cases: "settled_by ev s = [] \<or> (\<exists>t res. settled_by ev s = [(t, res)])"
  by (cases ev) auto

lemma expected_step:
  "expected_gallery g ((t, res) # h) @
     filter (\<lambda>img. \<not> deleted_in (image_id img) ((t, res) # h)) old =
   expected_gallery g h @
     filter (\<lambda>img. \<not> deleted_in (image_id img) h)
       (case t of
          UploadTask key file \<Rightarrow>
            (if res = Response None
             then [\<lparr>image_id = key, image_url = g ''images'' key, image_name = file_name file\<rparr>]
             else []) @ old
        | RemoveTask imageId \<Rightarrow>
            (if res = Response None then filter (\<lambda>img. image_id img \<noteq> imageId) old else old))"
proof (cases t)
  case (UploadTask key f)
  then show ?thesis
    by (cases res rule: response.exhaust; cases "res = Response None")
       (auto simp add: deleted_in_def split: option.splits)
next
  case (RemoveTask imageId)
  then show ?thesis
    by (cases res rule: response.exhaust)
       (auto simp add: deleted_in_def split: option.splits intro!: filter_cong)
qed

lemma gallery_run:
  "uploadedImages (component (run g evs s)) =
     expected_gallery g (settled_calls g evs s) @
       filter (\<lambda>img. \<not> deleted_in (image_id img) (settled_calls g evs s))
         (uploadedImages (component s))"
proof (induction evs arbitrary: s)
  case Nil
  show ?case by (simp add: deleted_in_def)
next
  case (Cons ev evs)
  from settled_by_cases[of ev s] show ?case
  proof
    assume e: "settled_by ev s = []"
    then show ?thesis using Cons.IH[of "step g ev s"] gallery_unsettled[OF e, of g] by simp
  next
    assume "\<exists>t res. settled_by ev s = [(t, res)]"
    then obtain t res where e: "settled_by ev s = [(t, res)]" by blast
    show ?thesis
      using Cons.IH[of "step g ev s"] gallery_settled[OF e, of g]
        expected_step[of g t res "settled_calls g evs (step g ev s)" "uploadedImages (component s)"]
      by (simp add: e)
  qed
qed

text \<open>
  Read as sets: an image is in the expected gallery exactly when the settled calls hold a
  successful upload of it that no successful delete of its key follows.
\<close>

lemma expected_gallery_Cons:
  "expected_gallery g (c # h) =
     expected_gallery g h @
       (case c of
          (UploadTask key file, Response None) \<Rightarrow>
            if deleted_in key h then []
            else [\<lparr>image_id = key, image_url = g ''images'' key, image_name = file_name file\<rparr>]
        | _ \<Rightarrow> [])"
  by (simp split: prod.splits task.splits response.splits option.splits)

lemma upload_in_Cons:
  "(\<exists>h1 h2 key file. c # h = h1 @ (UploadTask key file, Response None) # h2 \<and> Q key file h2) \<longleftrightarrow>
     (\<exists>key file. c = (UploadTask key file, Response None) \<and> Q key file h) \<or>
     (\<exists>h1 h2 key file. h = h1 @ (UploadTask key file, Response None) # h2 \<and> Q key file h2)"
proof
  assume "\<exists>h1 h2 key file. c # h = h1 @ (UploadTask key file, Response None) # h2 \<and> Q key file h2"
  then obtain h1 h2 key f
    where eq: "c # h = h1 @ (UploadTask key f, Response None) # h2" and q: "Q key f h2"
    by blast
  show "(\<exists>key file. c = (UploadTask key file, Response None) \<and> Q key file h) \<or>
     (\<exists>h1 h2 key file. h = h1 @ (UploadTask key file, Response None) # h2 \<and> Q key file h2)"
  proof (cases h1)
    case Nil
    with eq q show ?thesis by auto
  next
    case (Cons x rest)
    with eq have "h = rest @ (UploadTask key f, Response None) # h2" by simp
    with q show ?thesis by blast
  qed
next
  assume "(\<exists>key file. c = (UploadTask key file, Response None) \<and> Q key file h) \<or>
     (\<exists>h1 h2 key file. h = h1 @ (UploadTask key file, Response None) # h2 \<and> Q key file h2)"
  then show "\<exists>h1 h2 key file. c # h = h1 @ (UploadTask key file, Response None) # h2 \<and> Q key file h2"
  proof
    assume "\<exists>key file. c = (UploadTask key file, Response None) \<and> Q key file h"
    then obtain key f where "c # h = [] @ (UploadTask key f, Response None) # h" and "Q key f h"
      by auto
    then show ?thesis by blast
  next
    assume "\<exists>h1 h2 key file. h = h1 @ (UploadTask key file, Response None) # h2 \<and> Q key file h2"
    then obtain h1 h2 key f
      where "c # h = (c # h1) @ (UploadTask key f, Response None) # h2" and "Q key f h2"
      by auto
    then show ?thesis by blast
  qed
qed

lemma in_expected_gallery:
  "img \<in> set (expected_gallery g h) \<longleftrightarrow>
     (\<exists>h1 h2 key file.
        h = h1 @ (UploadTask key file, Response None) # h2 \<and>
        (\<not> deleted_in key h2 \<and>
         img = \<lparr>image_id = key, image_url = g ''images'' key, image_name = file_name file\<rparr>))"
proof (induction h)
  case Nil
  show ?case by simp
next
  case (Cons c h)
  show ?case
    unfolding expected_gallery_Cons upload_in_Cons
    by (auto simp add: Cons.IH split: prod.splits task.splits response.splits option.splits)
qed

text \<open>
  Claim C6. After any sequence of calls of \<open>uploadImage\<close> and \<open>removeImage\<close>, drops and
  file selections, with the storage calls settling in any order and with any answer, the
  gallery list is exactly the list of the entries of the uploads that succeeded and whose
  key no delete that succeeded later names, the most recent first. So an entry is in the
  list if and only if its upload succeeded and no delete of its key has succeeded since:
  the list holds no entry that a successful delete removed, and it has lost no successful
  upload otherwise. Entries are told apart by their id, as \<open>removeImage\<close> does.
\<close>

theorem gallery_is_expected:
  "uploadedImages (component (run getPublicUrl evs initial_system)) =
     expected_gallery getPublicUrl (settled_calls getPublicUrl evs initial_system) \<and>
   (img \<in> set (uploadedImages (component (run getPublicUrl evs initial_system))) \<longleftrightarrow>
      (\<exists>h1 h2 key file.
         settled_calls getPublicUrl evs initial_system =
           h1 @ (UploadTask key file, Response None) # h2 \<and>
         (RemoveTask key, Response None) \<notin> set h2 \<and>
         img = \<lparr>image_id = key, image_url = getPublicUrl ''images'' key,
                 image_name = file_name file\<rparr>))"
proof -
  have "uploadedImages (component (run getPublicUrl evs initial_system)) =
     expected_gallery getPublicUrl (settled_calls getPublicUrl evs initial_system)"
    using gallery_run [of getPublicUrl evs initial_system]
    by (simp add: initial_system_def initial_panel_def)
  then show ?thesis by (simp add: in_expected_gallery deleted_in_def)
qed

subsection \<open>What a step does to the gallery, the flag and the outstanding calls\<close>

lemma outstanding_call_uploadImage:
  "outstanding_uploads (call_uploadImage file now s) =
     outstanding_uploads s @
       (if startsWith (file_type file) ''image/''
        then [UploadTask (numberToString now @ ''-'' @ file_name file) file] else [])"
  by (simp add: call_uploadImage_def uploadImage_start_def outstanding_uploads_def Let_def)

lemma uploading_call_uploadImage:
  "uploading (component (call_uploadImage file now s)) =
     (startsWith (file_type file) ''image/'' \<or> uploading (component s))"
  by (simp add: call_uploadImage_def uploadImage_start_def effect_defs Let_def)

lemma inflight_settle:
  "inflight (settle g k res s) =
     (if k < length (inflight s) then take k (inflight s) @ drop (Suc k) (inflight s)
      else inflight s)"
  by (simp add: settle_def)

lemma uploading_settle:
  "uploading (component (settle g k res s)) =
     (if k < length (inflight s) \<and> is_upload (inflight s ! k) then False
      else uploading (component s))"
  by (auto simp add: settle_def uploading_after_upload uploading_after_remove
      split: task.splits)

lemma filter_without_nth:
  "k < length l \<Longrightarrow>
     filter P l = filter P (take k l) @ (if P (l ! k) then [l ! k] else []) @
       filter P (drop (Suc k) l)"
proof -
  assume k: "k < length l"
  have "filter P l = filter P (take k l @ l ! k # drop (Suc k) l)"
    by (subst id_take_nth_drop[OF k, symmetric]) (rule refl)
  then show ?thesis by simp
qed

lemma outstanding_settle:
  "k < length (inflight s) \<Longrightarrow>
     outstanding_uploads s =
       filter is_upload (take k (inflight s)) @
       (if is_upload (inflight s ! k) then [inflight s ! k] else []) @
       filter is_upload (drop (Suc k) (inflight s))"
  unfolding outstanding_uploads_def by (rule filter_without_nth)

lemma outstanding_after_settle:
  "outstanding_uploads (settle g k res s) =
     (if k < length (inflight s)
      then filter is_upload (take k (inflight s)) @ filter is_upload (drop (Suc k) (inflight s))
      else outstanding_uploads s)"
  by (simp add: outstanding_uploads_def inflight_settle)

lemma inflight_call_uploadImage:
  "inflight (call_uploadImage file now s) =
     inflight s @
       (if startsWith (file_type file) ''image/''
        then [UploadTask (numberToString now @ ''-'' @ file_name file) file] else [])"
  by (simp add: call_uploadImage_def uploadImage_start_def Let_def)

lemma gallery_settle:
  "uploadedImages (component (settle g k res s)) =
     (if k < length (inflight s) then
        (case inflight s ! k of
           UploadTask key file \<Rightarrow>
             (if res = Response None
              then [\<lparr>image_id = key, image_url = g ''images'' key, image_name = file_name file\<rparr>]
              else []) @ uploadedImages (component s)
         | RemoveTask imageId \<Rightarrow>
             (if res = Response None
              then filter (\<lambda>img. image_id img \<noteq> imageId) (uploadedImages (component s))
              else uploadedImages (component s)))
      else uploadedImages (component s))"
  by (simp add: settle_def gallery_after_upload gallery_after_remove split: task.splits)

lemma storage_calls_call_uploadImage:
  "storage_calls (component (call_uploadImage file now s)) =
     storage_calls (component s) @
       (if startsWith (file_type file) ''image/''
        then [Upload ''images'' (numberToString now @ ''-'' @ file_name file) file] else [])"
  by (simp add: call_uploadImage_def uploadImage_start_def effect_defs Let_def)

lemmas observe = inflight_call_uploadImage uploading_call_uploadImage gallery_call_uploadImage
  inflight_settle uploading_settle gallery_settle outstanding_uploads_def
  handleDrop_def handleFileInput_def setIsDragging_def startsWith_def

lemma initially:
  "inflight initial_system = []"
  "uploading (component initial_system) = False"
  "uploadedImages (component initial_system) = []"
  by (simp_all add: initial_system_def initial_panel_def)

lemma stamps:
  "numberToString 1700000000000 = ''1700000000000''"
  "numberToString 1700000000001 = ''1700000000001''"
  by (simp_all add: render_number)

subsection \<open>The uploading flag\<close>

lemma flag_sound_forEach:
  "(uploading (component s) \<longrightarrow> outstanding_uploads s \<noteq> []) \<Longrightarrow>
     (uploading (component (forEach_uploadImage files s)) \<longrightarrow>
        outstanding_uploads (forEach_uploadImage files s) \<noteq> [])"
  by (induction files s rule: forEach_uploadImage.induct)
     (simp_all add: outstanding_call_uploadImage uploading_call_uploadImage)

lemma flag_exact_forEach:
  "(uploading (component s) \<longleftrightarrow> outstanding_uploads s \<noteq> []) \<Longrightarrow>
     (uploading (component (forEach_uploadImage files s)) \<longleftrightarrow>
        outstanding_uploads (forEach_uploadImage files s) \<noteq> [])"
  by (induction files s rule: forEach_uploadImage.induct)
     (simp_all add: outstanding_call_uploadImage uploading_call_uploadImage)

lemma flag_sound_step:
  assumes "uploading (component s) \<longrightarrow> outstanding_uploads s \<noteq> []"
  shows "uploading (component (step g ev s)) \<longrightarrow> outstanding_uploads (step g ev s) \<noteq> []"
proof (cases ev)
  case (UploadCalled f now)
  with assms show ?thesis
    by (simp add: outstanding_call_uploadImage uploading_call_uploadImage)
next
  case (RemoveCalled imageId)
  with assms show ?thesis
    by (simp add: call_removeImage_def removeImage_start_def effect_defs outstanding_uploads_def)
next
  case (Dropped files)
  have "uploading (component (s\<lparr>component := setIsDragging False (component s)\<rparr>)) \<longrightarrow>
      outstanding_uploads (s\<lparr>component := setIsDragging False (component s)\<rparr>) \<noteq> []"
    using assms by (simp add: effect_defs outstanding_uploads_def)
  from flag_sound_forEach[OF this] Dropped show ?thesis by (simp add: handleDrop_def)
next
  case (FilesChosen files)
  with flag_sound_forEach[OF assms] show ?thesis by (simp add: handleFileInput_def)
next
  case DragOver
  with assms show ?thesis by (simp add: handleDragOver_def effect_defs outstanding_uploads_def)
next
  case DragLeave
  with assms show ?thesis by (simp add: handleDragLeave_def effect_defs outstanding_uploads_def)
next
  case (Settled k res)
  show ?thesis
  proof (cases "k < length (inflight s)")
    case True
    with assms Settled outstanding_settle[OF True] show ?thesis
      by (auto simp add: uploading_settle outstanding_after_settle)
  next
    case False
    with assms Settled show ?thesis by (simp add: settle_def)
  qed
qed

lemma flag_sound_run:
  "(uploading (component s) \<longrightarrow> outstanding_uploads s \<noteq> []) \<Longrightarrow>
     (uploading (component (run g evs s)) \<longrightarrow> outstanding_uploads (run g evs s) \<noteq> [])"
proof (induction evs arbitrary: s)
  case Nil
  then show ?case by simp
next
  case (Cons ev evs)
  from Cons.IH[OF flag_sound_step[OF Cons.prems]] show ?case by simp
qed

lemma flag_exact_step:
  assumes "uploading (component s) \<longleftrightarrow> outstanding_uploads s \<noteq> []"
    and "length (outstanding_uploads s) \<le> 1"
  shows "uploading (component (step g ev s)) \<longleftrightarrow> outstanding_uploads (step g ev s) \<noteq> []"
proof (cases ev)
  case (UploadCalled f now)
  with assms show ?thesis
    by (simp add: outstanding_call_uploadImage uploading_call_uploadImage)
next
  case (RemoveCalled imageId)
  with assms show ?thesis
    by (simp add: call_removeImage_def removeImage_start_def effect_defs outstanding_uploads_def)
next
  case (Dropped files)
  have "uploading (component (s\<lparr>component := setIsDragging False (component s)\<rparr>)) \<longleftrightarrow>
      outstanding_uploads (s\<lparr>component := setIsDragging False (component s)\<rparr>) \<noteq> []"
    using assms by (simp add: effect_defs outstanding_uploads_def)
  from flag_exact_forEach[OF this] Dropped show ?thesis by (simp add: handleDrop_def)
next
  case (FilesChosen files)
  with flag_exact_forEach[OF assms(1)] show ?thesis by (simp add: handleFileInput_def)
next
  case DragOver
  with assms show ?thesis by (simp add: handleDragOver_def effect_defs outstanding_uploads_def)
next
  case DragLeave
  with assms show ?thesis by (simp add: handleDragLeave_def effect_defs outstanding_uploads_def)
next
  case (Settled k res)
  show ?thesis
  proof (cases "k < length (inflight s)")
    case True
    with assms Settled outstanding_settle[OF True] show ?thesis
      by (auto simp add: uploading_settle outstanding_after_settle split: if_splits)
  next
    case False
    with assms Settled show ?thesis by (simp add: settle_def)
  qed
qed

lemma flag_exact_run:
  "one_at_a_time g evs s \<Longrightarrow>
     (uploading (component s) \<longleftrightarrow> outstanding_uploads s \<noteq> []) \<Longrightarrow>
     (uploading (component (run g evs s)) \<longleftrightarrow> outstanding_uploads (run g evs s) \<noteq> [])"
proof (induction evs arbitrary: s)
  case Nil
  then show ?case by simp
next
  case (Cons ev evs)
  from Cons.prems have "length (outstanding_uploads s) \<le> 1"
    and rest: "one_at_a_time g evs (step g ev s)" by simp_all
  from Cons.IH[OF rest flag_exact_step[OF Cons.prems(2) this(1)]] show ?case by simp
qed

text \<open>
  Claim C8, as amended. At every point of every run, with any number of uploads in flight,
  the uploading flag is true only if at least one upload is outstanding; and in a run in
  which no two uploads are ever outstanding at the same time, the flag is true if and only
  if an upload is outstanding.
\<close>

theorem uploading_flag:
  "(uploading (component (run getPublicUrl evs initial_system)) \<longrightarrow>
      outstanding_uploads (run getPublicUrl evs initial_system) \<noteq> []) \<and>
   (one_at_a_time getPublicUrl evs initial_system \<longrightarrow>
      (uploading (component (run getPublicUrl evs initial_system)) \<longleftrightarrow>
       outstanding_uploads (run getPublicUrl evs initial_system) \<noteq> []))"
proof -
  have start: "uploading (component initial_system) \<longleftrightarrow> outstanding_uploads initial_system \<noteq> []"
    by (simp add: initial_system_def initial_panel_def outstanding_uploads_def)
  then have "uploading (component initial_system) \<longrightarrow> outstanding_uploads initial_system \<noteq> []"
    by simp
  from flag_sound_run[OF this] flag_exact_run[OF _ start] show ?thesis by blast
qed

theorem uploading_flag_witness:
  "uploading (component (run example_getPublicUrl
       [UploadCalled \<lparr>file_name = ''cat.png'', file_type = ''image/png''\<rparr> 1700000000000]
       initial_system)) \<and>
   one_at_a_time example_getPublicUrl
       [UploadCalled \<lparr>file_name = ''cat.png'', file_type = ''image/png''\<rparr> 1700000000000]
       initial_system \<and>
   outstanding_uploads (run example_getPublicUrl
       [UploadCalled \<lparr>file_name = ''cat.png'', file_type = ''image/png''\<rparr> 1700000000000]
       initial_system) \<noteq> []"
  using uploading_flag [of example_getPublicUrl
       "[UploadCalled \<lparr>file_name = ''cat.png'', file_type = ''image/png''\<rparr> 1700000000000]"]
  by (simp add: observe initially)

text \<open>
  Claim C8 as stated fails: after one drop of two image files, the first upload to complete
  resets the flag while the second is still outstanding.
\<close>

theorem uploading_flag_counterexample:
  "outstanding_uploads (run example_getPublicUrl
       [Dropped [(\<lparr>file_name = ''cat.png'', file_type = ''image/png''\<rparr>, 1700000000000),
                 (\<lparr>file_name = ''dog.png'', file_type = ''image/png''\<rparr>, 1700000000000)],
        Settled 0 (Response None)]
       initial_system) \<noteq> [] \<and>
   \<not> uploading (component (run example_getPublicUrl
       [Dropped [(\<lparr>file_name = ''cat.png'', file_type = ''image/png''\<rparr>, 1700000000000),
                 (\<lparr>file_name = ''dog.png'', file_type = ''image/png''\<rparr>, 1700000000000)],
        Settled 0 (Response None)]
       initial_system))"
  by (simp add: observe initially)

subsection \<open>The shape of gallery entries\<close>

lemma entries_after_upload:
  "list_all (entry_ok g) (uploadedImages st) \<Longrightarrow> key_of (file_name file) key \<Longrightarrow>
     list_all (entry_ok g) (uploadedImages (state_after (uploadImage_resume g key file res st)))"
  by (simp add: gallery_after_upload entry_ok_def)

lemma entries_after_remove:
  "list_all (entry_ok g) (uploadedImages st) \<Longrightarrow>
     list_all (entry_ok g) (uploadedImages (state_after (removeImage_resume imageId res st)))"
  by (simp add: gallery_after_remove list_all_iff)

lemma key_of_start:
  "uploadImage_start file now st = Inr (key, st') \<Longrightarrow>
     key_of (file_name file) key \<and> uploadedImages st' = uploadedImages st"
  by (auto simp add: uploadImage_start_def key_of_def effect_defs Let_def split: if_splits)

lemma tasks_call_uploadImage:
  "list_all task_ok (inflight s) \<Longrightarrow> list_all task_ok (inflight (call_uploadImage file now s))"
  by (auto simp add: inflight_call_uploadImage key_of_def)

lemma tasks_forEach:
  "list_all task_ok (inflight s) \<Longrightarrow> list_all task_ok (inflight (forEach_uploadImage files s))"
  by (induction files s rule: forEach_uploadImage.induct) (simp_all add: tasks_call_uploadImage)

lemma tasks_step:
  assumes "list_all task_ok (inflight s)"
  shows "list_all task_ok (inflight (step g ev s))"
proof (cases ev)
  case (UploadCalled f now)
  with assms show ?thesis by (simp add: tasks_call_uploadImage)
next
  case (RemoveCalled imageId)
  with assms show ?thesis by (simp add: call_removeImage_def)
next
  case (Dropped files)
  have "list_all task_ok (inflight (s\<lparr>component := setIsDragging False (component s)\<rparr>))"
    using assms by simp
  from tasks_forEach[OF this] Dropped show ?thesis by (simp add: handleDrop_def)
next
  case (FilesChosen files)
  with tasks_forEach[OF assms] show ?thesis by (simp add: handleFileInput_def)
next
  case DragOver
  with assms show ?thesis by (simp add: handleDragOver_def)
next
  case DragLeave
  with assms show ?thesis by (simp add: handleDragLeave_def)
next
  case (Settled k res)
  with assms show ?thesis
    by (auto simp add: inflight_settle list_all_iff dest: in_set_takeD in_set_dropD)
qed

lemma entries_step:
  assumes "list_all (entry_ok g) (uploadedImages (component s))"
    and "list_all task_ok (inflight s)"
  shows "list_all (entry_ok g) (uploadedImages (component (step g ev s)))"
proof (cases "settled_by ev s = []")
  case True
  with assms show ?thesis by (simp add: gallery_unsettled)
next
  case False
  then obtain k res where ev: "ev = Settled k res" and k: "k < length (inflight s)"
    by (cases ev) (auto split: if_splits)
  from assms(2) k have "task_ok (inflight s ! k)" by (simp add: list_all_length)
  with assms(1) k show ?thesis
    by (auto simp add: ev gallery_settle entry_ok_def list_all_iff split: task.splits)
qed

lemma entries_run:
  "list_all (entry_ok g) (uploadedImages (component s)) \<Longrightarrow> list_all task_ok (inflight s) \<Longrightarrow>
     list_all (entry_ok g) (uploadedImages (component (run g evs s)))"
proof (induction evs arbitrary: s)
  case Nil
  then show ?case by simp
next
  case (Cons ev evs)
  from Cons.IH[OF entries_step[OF Cons.prems] tasks_step[OF Cons.prems(2)]]
  show ?case by simp
qed

text \<open>
  Claim C10. In every state a run reaches from the initial one, every gallery entry has as
  url the public address the provider resolves for its id in the bucket \<open>images\<close>, and its
  id is a timestamp, a hyphen and its name; a call of \<open>uploadImage\<close> and a call of
  \<open>removeImage\<close> keep this true of all entries of the list they leave.
\<close>

theorem entries_well_formed:
  "list_all (entry_ok getPublicUrl)
     (uploadedImages (component (run getPublicUrl evs initial_system))) \<and>
   (list_all (entry_ok getPublicUrl) (uploadedImages st) \<longrightarrow>
      list_all (entry_ok getPublicUrl)
        (uploadedImages (state_after (uploadImage getPublicUrl file now res st)))) \<and>
   (list_all (entry_ok getPublicUrl) (uploadedImages st) \<longrightarrow>
      list_all (entry_ok getPublicUrl)
        (uploadedImages (state_after (removeImage imageId res st))))"
proof (intro conjI impI)
  show "list_all (entry_ok getPublicUrl)
     (uploadedImages (component (run getPublicUrl evs initial_system)))"
    by (rule entries_run) (simp_all add: initially)
next
  assume ok: "list_all (entry_ok getPublicUrl) (uploadedImages st)"
  show "list_all (entry_ok getPublicUrl)
        (uploadedImages (state_after (uploadImage getPublicUrl file now res st)))"
  proof (cases "uploadImage_start file now st")
    case (Inl st')
    then have "uploadedImages st' = uploadedImages st"
      by (auto simp add: uploadImage_start_def effect_defs Let_def split: if_splits)
    with ok Inl show ?thesis by (simp add: uploadImage_def state_after_def)
  next
    case (Inr p)
    obtain key st' where p: "p = (key, st')" by (cases p)
    from key_of_start[OF Inr[unfolded p]] ok entries_after_upload[of getPublicUrl st' "file" key res]
    show ?thesis by (simp add: uploadImage_def Inr p)
  qed
next
  assume ok: "list_all (entry_ok getPublicUrl) (uploadedImages st)"
  then have "list_all (entry_ok getPublicUrl) (uploadedImages (removeImage_start imageId st))"
    by (simp add: removeImage_start_def effect_defs)
  from entries_after_remove[OF this] show "list_all (entry_ok getPublicUrl)
        (uploadedImages (state_after (removeImage imageId res st)))"
    by (simp add: removeImage_def)
qed

theorem entries_well_formed_witness:
  "uploadedImages (component (run example_getPublicUrl
      [UploadCalled \<lparr>file_name = ''cat.png'', file_type = ''image/png''\<rparr> 1700000000000,
       Settled 0 (Response None)] initial_system)) =
     [\<lparr>image_id = ''1700000000000-cat.png'',
       image_url = ''https://project.supabase.co/storage/v1/object/public/images/1700000000000-cat.png'',
       image_name = ''cat.png''\<rparr>] \<and>
   list_all (entry_ok example_getPublicUrl)
     [\<lparr>image_id = ''1700000000000-cat.png'',
       image_url = ''https://project.supabase.co/storage/v1/object/public/images/1700000000000-cat.png'',
       image_name = ''cat.png''\<rparr>] \<and>
   list_all (entry_ok example_getPublicUrl)
     (uploadedImages (state_after (uploadImage example_getPublicUrl
        \<lparr>file_name = ''dog.jpg'', file_type = ''image/jpeg''\<rparr> 1700000000001 (Response None)
        (component (run example_getPublicUrl
          [UploadCalled \<lparr>file_name = ''cat.png'', file_type = ''image/png''\<rparr> 1700000000000,
           Settled 0 (Response None)] initial_system))))) \<and>
   list_all (entry_ok example_getPublicUrl)
     (uploadedImages (state_after (removeImage ''1700000000000-cat.png'' (Response None)
        (component (run example_getPublicUrl
          [UploadCalled \<lparr>file_name = ''cat.png'', file_type = ''image/png''\<rparr> 1700000000000,
           Settled 0 (Response None)] initial_system)))))"
proof -
  let ?st = "component (run example_getPublicUrl
      [UploadCalled \<lparr>file_name = ''cat.png'', file_type = ''image/png''\<rparr> 1700000000000,
       Settled 0 (Response None)] initial_system)"
  have gallery: "uploadedImages ?st =
     [\<lparr>image_id = ''1700000000000-cat.png'',
       image_url = ''https://project.supabase.co/storage/v1/object/public/images/1700000000000-cat.png'',
       image_name = ''cat.png''\<rparr>]"
    by (simp add: observe initially stamps example_getPublicUrl_def)
  from entries_well_formed
    [of example_getPublicUrl
        "[UploadCalled \<lparr>file_name = ''cat.png'', file_type = ''image/png''\<rparr> 1700000000000,
          Settled 0 (Response None)]"
        ?st "\<lparr>file_name = ''dog.jpg'', file_type = ''image/jpeg''\<rparr>" 1700000000001
        "Response None" "''1700000000000-cat.png''"]
  show ?thesis unfolding gallery by blast
qed

subsection \<open>Storage keys\<close>

text \<open>The decimal rendering is injective, and the first hyphen after the sign ends it.\<close>

lemma digit_inj: "a < 10 \<Longrightarrow> b < 10 \<Longrightarrow> digit a = digit b \<Longrightarrow> a = b"
  unfolding digit_def
  by (rule nth_eq_iff_index_eq[THEN iffD1, of "''0123456789''"]) simp_all

lemma digit_not_minus: "a < 10 \<Longrightarrow> digit a \<noteq> CHR ''-''"
proof -
  assume "a < 10"
  then have "digit a \<in> set ''0123456789''"
    unfolding digit_def by (intro nth_mem) simp
  then show ?thesis by auto
qed

lemma decimal_nonempty: "decimal n \<noteq> []"
  by (subst decimal.simps) simp

lemma decimal_large: "\<not> n < 10 \<Longrightarrow> decimal n = decimal (n div 10) @ [digit (n mod 10)]"
  by (subst decimal.simps) simp

lemma decimal_no_minus: "CHR ''-'' \<notin> set (decimal n)"
proof (induction n rule: decimal.induct)
  case (1 n)
  show ?case
  proof (cases "n < 10")
    case True
    then show ?thesis using digit_not_minus[of n] by (simp add: decimal_small)
  next
    case False
    then show ?thesis using "1" digit_not_minus[of "n mod 10"]
      by (simp add: decimal_large)
  qed
qed

lemma decimal_inj: "decimal m = decimal n \<Longrightarrow> m = n"
proof (induction m arbitrary: n rule: decimal.induct)
  case (1 m)
  show ?case
  proof (cases "m < 10")
    case small_m: True
    show ?thesis
    proof (cases "n < 10")
      case True
      with small_m "1.prems" show ?thesis by (simp add: decimal_small digit_inj)
    next
      case False
      with small_m "1.prems" decimal_nonempty[of "n div 10"] show ?thesis
        by (simp add: decimal_small decimal_large)
    qed
  next
    case large_m: False
    show ?thesis
    proof (cases "n < 10")
      case True
      with large_m "1.prems" decimal_nonempty[of "m div 10"] show ?thesis
        by (simp add: decimal_small decimal_large)
    next
      case False
      with large_m "1.prems" have front_eq: "decimal (m div 10) = decimal (n div 10)"
        and last_eq: "digit (m mod 10) = digit (n mod 10)"
        by (simp_all add: decimal_large)
      from front_eq "1.IH"[OF large_m] have "m div 10 = n div 10" by simp
      moreover from last_eq have "m mod 10 = n mod 10" by (intro digit_inj) simp_all
      ultimately show ?thesis by (metis div_mult_mod_eq)
    qed
  qed
qed

lemma split_at_first:
  "c \<notin> set xs \<Longrightarrow> c \<notin> set xs' \<Longrightarrow> xs @ c # ys = xs' @ c # ys' \<Longrightarrow> xs = xs' \<and> ys = ys'"
proof (induction xs arbitrary: xs')
  case Nil
  then show ?case by (cases xs') auto
next
  case (Cons x xs)
  then show ?case by (cases xs') auto
qed

lemma numberToString_inj: "numberToString a = numberToString b \<Longrightarrow> a = b"
proof -
  assume eq: "numberToString a = numberToString b"
  have first: "hd (decimal k) \<noteq> CHR ''-''" for k
    using decimal_no_minus[of k] decimal_nonempty[of k] by (cases "decimal k") auto
  show ?thesis
  proof (cases "a < 0")
    case neg_a: True
    show ?thesis
    proof (cases "b < 0")
      case True
      with neg_a eq decimal_inj[of "nat (- a)" "nat (- b)"] show ?thesis
        by (simp add: numberToString_def)
    next
      case False
      with neg_a eq first[of "nat b"] show ?thesis
        by (cases "decimal (nat b)") (auto simp add: numberToString_def)
    qed
  next
    case pos_a: False
    show ?thesis
    proof (cases "b < 0")
      case True
      with pos_a eq first[of "nat a"] show ?thesis
        by (cases "decimal (nat a)") (auto simp add: numberToString_def)
    next
      case False
      with pos_a eq decimal_inj[of "nat a" "nat b"] show ?thesis
        by (simp add: numberToString_def)
    qed
  qed
qed

lemma key_eq_iff:
  "numberToString a @ CHR ''-'' # n1 = numberToString b @ CHR ''-'' # n2 \<longleftrightarrow> a = b \<and> n1 = n2"
proof
  assume eq: "numberToString a @ CHR ''-'' # n1 = numberToString b @ CHR ''-'' # n2"
  have first: "hd (decimal k) \<noteq> CHR ''-''" for k
    using decimal_no_minus[of k] decimal_nonempty[of k] by (cases "decimal k") auto
  have pos: "numberToString a = numberToString b \<and> n1 = n2"
    if "decimal x @ CHR ''-'' # n1 = decimal y @ CHR ''-'' # n2"
      and "numberToString a = s @ decimal x" and "numberToString b = s @ decimal y" for x y s
    using split_at_first[OF decimal_no_minus decimal_no_minus that(1)] that(2,3) by simp
  have "numberToString a = numberToString b \<and> n1 = n2"
  proof (cases "a < 0")
    case neg_a: True
    show ?thesis
    proof (cases "b < 0")
      case True
      with neg_a eq show ?thesis
        by (intro pos[of "nat (- a)" "nat (- b)" "''-''"]) (simp_all add: numberToString_def)
    next
      case False
      with neg_a eq first[of "nat b"] show ?thesis
        by (cases "decimal (nat b)") (auto simp add: numberToString_def decimal_nonempty)
    qed
  next
    case pos_a: False
    show ?thesis
    proof (cases "b < 0")
      case True
      with pos_a eq first[of "nat a"] show ?thesis
        by (cases "decimal (nat a)") (auto simp add: numberToString_def decimal_nonempty)
    next
      case False
      with pos_a eq show ?thesis
        by (intro pos[of "nat a" "nat b" "[]"]) (simp_all add: numberToString_def)
    qed
  qed
  then show "a = b \<and> n1 = n2" using numberToString_inj by blast
next
  assume "a = b \<and> n1 = n2"
  then show "numberToString a @ CHR ''-'' # n1 = numberToString b @ CHR ''-'' # n2" by simp
qed

text \<open>
  Claim C7, as amended. The key of an upload is made of its timestamp and the file's name
  only. After a drop of three image files whose uploads all succeed, in whatever order they
  complete, the gallery has three entries, and their ids are pairwise distinct exactly when
  the three pairs of timestamp and name are pairwise distinct.
\<close>

theorem dropped_files_ids:
  "startsWith (file_type f1) ''image/'' \<Longrightarrow> startsWith (file_type f2) ''image/'' \<Longrightarrow>
   startsWith (file_type f3) ''image/'' \<Longrightarrow> k1 < 3 \<Longrightarrow> k2 < 2 \<Longrightarrow>
     length (uploadedImages (component (run getPublicUrl
        [Dropped [(f1, n1), (f2, n2), (f3, n3)], Settled k1 (Response None),
         Settled k2 (Response None), Settled 0 (Response None)] initial_system))) = 3 \<and>
     (distinct (map image_id (uploadedImages (component (run getPublicUrl
        [Dropped [(f1, n1), (f2, n2), (f3, n3)], Settled k1 (Response None),
         Settled k2 (Response None), Settled 0 (Response None)] initial_system)))) \<longleftrightarrow>
      distinct [(n1, file_name f1), (n2, file_name f2), (n3, file_name f3)])"
proof -
  assume valid: "startsWith (file_type f1) ''image/''" "startsWith (file_type f2) ''image/''"
    "startsWith (file_type f3) ''image/''"
  assume "k1 < 3" and "k2 < 2"
  then have first: "k1 = 0 \<or> k1 = 1 \<or> k1 = 2" and second: "k2 = 0 \<or> k2 = 1" by arith+
  let ?s = "handleDrop [(f1, n1), (f2, n2), (f3, n3)] initial_system"
  have started: "inflight ?s =
      [UploadTask (numberToString n1 @ ''-'' @ file_name f1) f1,
       UploadTask (numberToString n2 @ ''-'' @ file_name f2) f2,
       UploadTask (numberToString n3 @ ''-'' @ file_name f3) f3]"
    by (simp add: handleDrop_def inflight_call_uploadImage initially valid)
  have empty: "uploadedImages (component ?s) = []"
    by (simp add: handleDrop_def gallery_call_uploadImage initially setIsDragging_def)
  from first second show ?thesis
    by (elim disjE; simp add: gallery_settle inflight_settle started empty key_eq_iff) argo+
qed

theorem dropped_files_ids_witness:
  "startsWith ''image/png'' ''image/'' \<and> startsWith ''image/jpeg'' ''image/'' \<and>
   (2::nat) < 3 \<and> (0::nat) < 2 \<and>
   map image_id (uploadedImages (component (run example_getPublicUrl
      [Dropped [(\<lparr>file_name = ''cat.png'', file_type = ''image/png''\<rparr>, 1700000000000),
                (\<lparr>file_name = ''dog.jpg'', file_type = ''image/jpeg''\<rparr>, 1700000000000),
                (\<lparr>file_name = ''cat.png'', file_type = ''image/png''\<rparr>, 1700000000001)],
       Settled 2 (Response None), Settled 0 (Response None), Settled 0 (Response None)]
      initial_system))) =
     [''1700000000000-dog.jpg'', ''1700000000000-cat.png'', ''1700000000001-cat.png''] \<and>
   distinct (map image_id (uploadedImages (component (run example_getPublicUrl
      [Dropped [(\<lparr>file_name = ''cat.png'', file_type = ''image/png''\<rparr>, 1700000000000),
                (\<lparr>file_name = ''dog.jpg'', file_type = ''image/jpeg''\<rparr>, 1700000000000),
                (\<lparr>file_name = ''cat.png'', file_type = ''image/png''\<rparr>, 1700000000001)],
       Settled 2 (Response None), Settled 0 (Response None), Settled 0 (Response None)]
      initial_system))))"
  using dropped_files_ids
    [of "\<lparr>file_name = ''cat.png'', file_type = ''image/png''\<rparr>"
        "\<lparr>file_name = ''dog.jpg'', file_type = ''image/jpeg''\<rparr>"
        "\<lparr>file_name = ''cat.png'', file_type = ''image/png''\<rparr>"
        2 0 example_getPublicUrl 1700000000000 1700000000000 1700000000001]
  by (simp add: observe initially stamps)

text \<open>
  Claim C7 as stated fails: two files of the same name dropped together, their calls reading
  the same millisecond, get the same key, and the gallery ends with two entries of one id.
\<close>

theorem unique_ids_counterexample:
  "storage_calls (component (handleDrop
      [(\<lparr>file_name = ''cat.png'', file_type = ''image/png''\<rparr>, 1700000000000),
       (\<lparr>file_name = ''cat.png'', file_type = ''image/png''\<rparr>, 1700000000000),
       (\<lparr>file_name = ''dog.jpg'', file_type = ''image/jpeg''\<rparr>, 1700000000000)]
      initial_system)) =
     [Upload ''images'' ''1700000000000-cat.png''
        \<lparr>file_name = ''cat.png'', file_type = ''image/png''\<rparr>,
      Upload ''images'' ''1700000000000-cat.png''
        \<lparr>file_name = ''cat.png'', file_type = ''image/png''\<rparr>,
      Upload ''images'' ''1700000000000-dog.jpg''
        \<lparr>file_name = ''dog.jpg'', file_type = ''image/jpeg''\<rparr>] \<and>
   map image_id (uploadedImages (component (run example_getPublicUrl
      [Dropped [(\<lparr>file_name = ''cat.png'', file_type = ''image/png''\<rparr>, 1700000000000),
                (\<lparr>file_name = ''cat.png'', file_type = ''image/png''\<rparr>, 1700000000000),
                (\<lparr>file_name = ''dog.jpg'', file_type = ''image/jpeg''\<rparr>, 1700000000000)],
       Settled 0 (Response None), Settled 0 (Response None), Settled 0 (Response None)]
      initial_system))) =
     [''1700000000000-dog.jpg'', ''1700000000000-cat.png'', ''1700000000000-cat.png''] \<and>
   \<not> distinct (map image_id (uploadedImages (component (run example_getPublicUrl
      [Dropped [(\<lparr>file_name = ''cat.png'', file_type = ''image/png''\<rparr>, 1700000000000),
                (\<lparr>file_name = ''cat.png'', file_type = ''image/png''\<rparr>, 1700000000000),
                (\<lparr>file_name = ''dog.jpg'', file_type = ''image/jpeg''\<rparr>, 1700000000000)],
       Settled 0 (Response None), Settled 0 (Response None), Settled 0 (Response None)]
      initial_system))))"
  by (simp add: observe storage_calls_call_uploadImage initial_system_def initial_panel_def
      stamps)

end
